theory Spec2Isabelle
  imports Complex_Main "HOL-Library.Word" "HOL-Library.Signed_Division" "HOL-Library.Log_Nat"
begin

unbundle bit_operations_syntax

section \<open>The datagram buffer of eltakoMS.c\<close>

text \<open>
  The program is one function, \<^verbatim>\<open>main\<close>, whose endless loop reads a datagram into
  \<^verbatim>\<open>char buf[LINELEN]\<close>, runs the sanity checks, decodes the fields and folds them
  into the running window. The parts of the loop body are embedded here one by one, in
  the order of the source, under the names the specification gives them
  (validate, decode, accept); variables keep their C names.

  A C \<^verbatim>\<open>char\<close> is modelled as an unsigned byte. The option loop of \<^verbatim>\<open>main\<close>,
  \<^verbatim>\<open>while ((c = getopt (...)) != 255)\<close> with \<^verbatim>\<open>char c\<close>, ends only where
  \<^verbatim>\<open>char\<close> is unsigned (getopt's -1 becomes 255); with a signed \<^verbatim>\<open>char\<close> the
  program leaves through \<^verbatim>\<open>usage\<close> before it reaches the loop modelled here.
\<close>

type_synonym cchar = "8 word"

abbreviation CH :: "char \<Rightarrow> cchar" where
  "CH c \<equiv> of_char c"

definition LINELEN :: nat where
  "LINELEN = 150"

definition ETX :: cchar where
  "ETX = 0x03"

definition cstr :: "string \<Rightarrow> cchar list" where
  "cstr s = map of_char s"

text \<open>
  \<^verbatim>\<open>s = buf; do { read (fd, s++, 1); } while (*(s-1) != 0x03 && (s-buf) < LINELEN);\<close>
  \<^verbatim>\<open>*(s) = '\0';\<close>

  One pass of the reading loop stores the bytes \<open>fr\<close> it receives at the start of
  \<open>buf\<close> and ends after the first 0x03 or after \<open>LINELEN\<close> bytes, so
  \<^verbatim>\<open>s - buf\<close> is \<open>length fr\<close>: the terminator is counted. The rest of \<open>buf\<close>
  keeps what earlier passes left there. With \<open>LINELEN\<close> bytes read the NUL is
  written one past the array (undefined in C); the model drops that write.
\<close>

definition load_frame :: "cchar list \<Rightarrow> cchar list \<Rightarrow> cchar list" where
  "load_frame buf fr = take LINELEN (fr @ 0 # drop (Suc (length fr)) buf)"

text \<open>
  \<^verbatim>\<open>strncpy(bufcpy,buf,LINELEN-1);\<close> copies the bytes of \<open>buf\<close> up to its first NUL,
  at most \<open>LINELEN - 1\<close> of them, and stores a NUL behind them only if it met one
  among these \<open>LINELEN - 1\<close> bytes. The model keeps the bytes copied and whether a NUL
  follows them in \<^verbatim>\<open>bufcpy\<close>: the program never writes \<^verbatim>\<open>bufcpy[LINELEN-1]\<close>.
\<close>

definition bufcpy_of :: "cchar list \<Rightarrow> cchar list \<times> bool" where
  "bufcpy_of buf =
     (takeWhile (\<lambda>c. c \<noteq> 0) (take (LINELEN - 1) buf), 0 \<in> set (take (LINELEN - 1) buf))"

section \<open>The C library calls on the buffer\<close>

definition nondigit :: "cchar \<Rightarrow> bool" where
  "nondigit c = (c < CH CHR ''0'' \<or> c > CH CHR ''9'')"

definition digit_val :: "cchar \<Rightarrow> int" where
  "digit_val c = uint c - 48"

definition isspace_c :: "cchar \<Rightarrow> bool" where
  "isspace_c c = (c = 0x20 \<or> (0x09 \<le> c \<and> c \<le> 0x0D))"

text \<open>
  The digits of a decimal number at the start of a C string, most significant first.
  The run stops at the first byte that is no digit (the NUL at the latest).
\<close>

fun digits_val :: "int \<Rightarrow> cchar list \<Rightarrow> int" where
  "digits_val acc [] = acc"
| "digits_val acc (c # cs) =
     (if nondigit c then acc else digits_val (acc * 10 + digit_val c) cs)"

text \<open>
  \<^verbatim>\<open>strtol\<close> with base 10: white space, an optional sign, decimal digits; a number
  outside the range of \<^verbatim>\<open>long\<close>, 64 bits here, comes out as the nearest end of
  that range.
\<close>

definition strtol :: "cchar list \<Rightarrow> int" where
  "strtol s =
     (let v = (case dropWhile isspace_c s of
                 [] \<Rightarrow> 0
               | c # cs \<Rightarrow>
                   if c = CH CHR ''-'' then - digits_val 0 cs
                   else if c = CH CHR ''+'' then digits_val 0 cs
                   else digits_val 0 (c # cs))
      in max (- (2 ^ 63)) (min (2 ^ 63 - 1) v))"

text \<open>
  \<^verbatim>\<open>atoi\<close> is \<^verbatim>\<open>(int) strtol (nptr, NULL, 10)\<close>, as the C library has it: the
  conversion to \<^verbatim>\<open>int\<close> keeps the low 32 bits, so a number of ten or more digits
  wraps around (188978562913 is read as 1889). C itself leaves that case undefined.
\<close>

definition atoi :: "cchar list \<Rightarrow> int" where
  "atoi s = sint (word_of_int (strtol s) :: 32 word)"

section \<open>Frame validator: the sanity checks\<close>

text \<open>\<^verbatim>\<open>if (c) err |= m;\<close>\<close>

definition chk :: "32 word \<Rightarrow> bool \<times> 32 word \<Rightarrow> 32 word" where
  "chk err cm = (if fst cm then err OR snd cm else err)"

text \<open>
  The checks of lines 298 to 347 in their order, each with the bit it sets;
  \<open>n\<close> is \<^verbatim>\<open>s - buf\<close>.
\<close>

definition sanity_checks :: "nat \<Rightarrow> cchar list \<Rightarrow> (bool \<times> 32 word) list" where
  "sanity_checks n buf =
    [(n \<noteq> 40, 0x0001),
     (buf ! 0 \<noteq> CH CHR ''W'', 0x0002),
     (buf ! 1 \<noteq> CH CHR ''+'' \<and> buf ! 1 \<noteq> CH CHR ''-'', 0x0004),
     (nondigit (buf ! 2), 0x0008),
     (nondigit (buf ! 3), 0x0008),
     (buf ! 4 \<noteq> CH CHR ''.'', 0x0008),
     (nondigit (buf ! 5), 0x0008),
     (nondigit (buf ! 6), 0x0010),
     (nondigit (buf ! 7), 0x0010),
     (nondigit (buf ! 8), 0x0020),
     (nondigit (buf ! 9), 0x0020),
     (nondigit (buf ! 10), 0x0040),
     (nondigit (buf ! 11), 0x0040),
     (buf ! 12 \<noteq> CH CHR ''J'' \<and> buf ! 12 \<noteq> CH CHR ''N'', 0x0080),
     (nondigit (buf ! 13), 0x0100),
     (nondigit (buf ! 14), 0x0100),
     (nondigit (buf ! 15), 0x0100),
     (nondigit (buf ! 16), 0x0200),
     (nondigit (buf ! 17), 0x0200),
     (buf ! 18 \<noteq> CH CHR ''.'', 0x0200),
     (nondigit (buf ! 19), 0x0200),
     (buf ! 20 \<noteq> CH CHR ''J'' \<and> buf ! 20 \<noteq> CH CHR ''N'', 0x0400),
     (buf ! 21 \<noteq> CH CHR ''?'', 0x0800),
     (buf ! 22 \<noteq> CH CHR ''1'', 0x0800),
     (buf ! 23 \<noteq> CH CHR ''5'', 0x0800),
     (buf ! 24 \<noteq> CH CHR ''1'', 0x0800),
     (buf ! 25 \<noteq> CH CHR ''5'', 0x0800),
     (buf ! 26 \<noteq> CH CHR ''1'', 0x0800),
     (buf ! 27 \<noteq> CH CHR ''5'', 0x0800),
     (buf ! 28 \<noteq> CH CHR ''1'', 0x0800),
     (buf ! 29 \<noteq> CH CHR ''5'', 0x0800),
     (buf ! 30 \<noteq> CH CHR ''1'', 0x0800),
     (buf ! 31 \<noteq> CH CHR ''5'', 0x0800),
     (buf ! 32 \<noteq> CH CHR ''1'', 0x0800),
     (buf ! 33 \<noteq> CH CHR ''5'', 0x0800),
     (buf ! 34 \<noteq> CH CHR ''?'', 0x0800),
     (nondigit (buf ! 35), 0x1000),
     (nondigit (buf ! 36), 0x1000),
     (nondigit (buf ! 37), 0x1000),
     (nondigit (buf ! 38), 0x1000)]"

text \<open>\<^verbatim>\<open>for (i=0, sum=0; i<35; i++) sum += *(buf+i);\<close>\<close>

definition checksum :: "cchar list \<Rightarrow> int" where
  "checksum buf = foldl (\<lambda>sum i. sum + uint (buf ! i)) 0 [0..<35]"

text \<open>
  \<^verbatim>\<open>if ((err & 0x1000) || sum != atoi(buf+35)) err |= 0x2000;\<close> closes the checks; the
  result is the value of \<^verbatim>\<open>err\<close> that the loop tests against 0.
\<close>

definition validate :: "nat \<Rightarrow> cchar list \<Rightarrow> 32 word" where
  "validate n buf =
     (let err = foldl chk 0 (sanity_checks n buf)
      in chk err (err AND 0x1000 \<noteq> 0 \<or> checksum buf \<noteq> atoi (drop 35 buf), 0x2000))"

text \<open>The datagram of the header comment of eltakoMS.c, without its terminator.\<close>

definition example_frame :: "cchar list" where
  "example_frame = cstr ''W+07.6016300N99901.2N?151515151515?1889''"

section \<open>Floating point: \<^verbatim>\<open>double\<close>, \<^verbatim>\<open>atof\<close> and the cast to \<^verbatim>\<open>int\<close>\<close>

text \<open>
  A finite \<^verbatim>\<open>double\<close> is a pair \<open>(m, e)\<close> of integers that stands for \<open>m * 2 ^ e\<close>.
  \<open>round_frac p q\<close> is the binary64 number nearest to the fraction \<open>p / q\<close>
  (\<open>q\<close> positive), ties to the even significand: with the exponent \<open>e\<close> for which
  \<open>2 ^ 52 \<le> \<bar>p / q\<bar> / 2 ^ e < 2 ^ 53\<close>, the significand is \<open>\<bar>p / q\<bar> / 2 ^ e\<close>
  rounded to an integer. \<open>bitlen\<close> gives the exponent up to one, the comparison
  settles it. The exponent range of binary64 is left out: the numbers of this program
  lie between 1/20 and 10000. Every operation is rounded to binary64 on its own, as
  with \<^verbatim>\<open>FLT_EVAL_METHOD\<close> 0.
\<close>

type_synonym double = "int \<times> int"

definition rne_div :: "int \<Rightarrow> int \<Rightarrow> int" where
  "rne_div a b =
     (let f = a div b; r = a mod b
      in if 2 * r < b then f else if b < 2 * r then f + 1
         else if even f then f else f + 1)"

text \<open>The fraction \<open>p / q / 2 ^ e\<close>.\<close>

definition scaled :: "int \<Rightarrow> int \<Rightarrow> int \<Rightarrow> int \<times> int" where
  "scaled p q e = (if 0 \<le> e then (p, q * 2 ^ nat e) else (p * 2 ^ nat (- e), q))"

definition round_frac :: "int \<Rightarrow> int \<Rightarrow> double" where
  "round_frac p q =
     (if p = 0 then (0, 0)
      else
        let e0 = bitlen \<bar>p\<bar> - bitlen q - 53;
            e = (case scaled \<bar>p\<bar> q e0 of (a, b) \<Rightarrow> if 2 ^ 53 * b \<le> a then e0 + 1 else e0)
        in case scaled \<bar>p\<bar> q e of (a, b) \<Rightarrow> (sgn p * rne_div a b, e))"

text \<open>The product of a double and an integer, rounded: \<^verbatim>\<open>x * 10\<close>, \<^verbatim>\<open>interval * .05\<close>.\<close>

definition dmul :: "double \<Rightarrow> int \<Rightarrow> double" where
  "dmul x k =
     (case x of (m, e) \<Rightarrow>
        if 0 \<le> e then round_frac (m * k * 2 ^ nat e) 1
        else round_frac (m * k) (2 ^ nat (- e)))"

definition dneg :: "double \<Rightarrow> double" where
  "dneg x = (case x of (m, e) \<Rightarrow> (- m, e))"

text \<open>\<^verbatim>\<open>k <= x\<close> for an integer \<open>k\<close> small enough to be a double as it is.\<close>

definition int_le_double :: "int \<Rightarrow> double \<Rightarrow> bool" where
  "int_le_double k x =
     (case x of (m, e) \<Rightarrow> if 0 \<le> e then k \<le> m * 2 ^ nat e else k * 2 ^ nat (- e) \<le> m)"

text \<open>\<^verbatim>\<open>(int) x\<close> discards the fraction: it truncates towards zero.\<close>

definition c_int :: "double \<Rightarrow> int" where
  "c_int x =
     (case x of (m, e) \<Rightarrow>
        if 0 \<le> e then m * 2 ^ nat e else sgn m * (\<bar>m\<bar> div 2 ^ nat (- e)))"

text \<open>
  \<^verbatim>\<open>atof\<close> on a decimal text: white space, an optional sign, digits, an optional point
  and more digits; the result is the double nearest to the decimal number. Exponents,
  hexadecimal numbers, infinities and NaN are left out: the two texts the loop hands to
  \<^verbatim>\<open>atof\<close> have passed the sanity checks and end in a NUL right behind their last
  digit. \<open>decimal n s\<close> reads the number as a fraction, numerator and power of ten.
\<close>

fun fraction :: "int \<Rightarrow> int \<Rightarrow> cchar list \<Rightarrow> int \<times> int" where
  "fraction n d [] = (n, d)"
| "fraction n d (c # cs) =
     (if nondigit c then (n, d) else fraction (n * 10 + digit_val c) (d * 10) cs)"

fun decimal :: "int \<Rightarrow> cchar list \<Rightarrow> int \<times> int" where
  "decimal n [] = (n, 1)"
| "decimal n (c # cs) =
     (if c = CH CHR ''.'' then fraction n 1 cs
      else if nondigit c then (n, 1)
      else decimal (n * 10 + digit_val c) cs)"

definition strtod_dec :: "cchar list \<Rightarrow> double" where
  "strtod_dec s = (case decimal 0 s of (n, d) \<Rightarrow> round_frac n d)"

definition atof :: "cchar list \<Rightarrow> double" where
  "atof s =
     (case dropWhile isspace_c s of
        [] \<Rightarrow> (0, 0)
      | c # cs \<Rightarrow>
          if c = CH CHR ''-'' then dneg (strtod_dec cs)
          else if c = CH CHR ''+'' then strtod_dec cs
          else strtod_dec (c # cs))"

text \<open>\<^verbatim>\<open>(int)(atof(s)*10)\<close>\<close>

definition tenths :: "cchar list \<Rightarrow> int" where
  "tenths s = c_int (dmul (atof s) 10)"

section \<open>Frame decoder\<close>

record measurement =
  temp :: int
  sunS :: int
  sunW :: int
  sunE :: int
  obsc :: cchar
  dawn :: int
  wind :: int
  rain :: cchar

text \<open>
  Lines 355 to 375 without the accumulation: the fields are carved out of \<open>buf\<close> from
  the right, each NUL written into \<open>buf\<close> ending the text of the field before it. The
  changed buffer is returned with the measurement, since the next pass of the loop
  reads into it.
\<close>

definition decode :: "cchar list \<Rightarrow> measurement \<times> cchar list" where
  "decode buf0 =
     (let rain' = (if buf0 ! 20 = CH CHR ''J'' then CH CHR ''R'' else CH CHR ''r'');
          buf1 = buf0[20 := 0];
          wind' = tenths (drop 16 buf1);
          buf2 = buf1[16 := 0];
          dawn' = atoi (drop 13 buf2);
          obsc' = (if buf2 ! 12 = CH CHR ''J'' then CH CHR ''O'' else CH CHR ''o'');
          buf3 = buf2[12 := 0];
          sunE' = atoi (drop 10 buf3);
          buf4 = buf3[10 := 0];
          sunW' = atoi (drop 8 buf4);
          buf5 = buf4[8 := 0];
          sunS' = atoi (drop 6 buf5);
          buf6 = buf5[6 := 0];
          temp' = tenths (drop 1 buf6)
      in (\<lparr>temp = temp', sunS = sunS', sunW = sunW', sunE = sunE', obsc = obsc',
           dawn = dawn', wind = wind', rain = rain'\<rparr>, buf6))"

section \<open>Window accumulator\<close>

text \<open>
  The variables of \<^verbatim>\<open>main\<close> that live across passes of the loop. The C integers are
  modelled as unbounded: one datagram a second adds at most 999 to a sum, far from the
  range of \<^verbatim>\<open>int\<close> and \<^verbatim>\<open>long\<close> within any window.
\<close>

record accumulator =
  count :: int
  maxRain :: cchar
  maxWind :: int
  accDawn :: int
  maxObsc :: cchar
  accSunE :: int
  accSunW :: int
  accSunS :: int
  accTemp :: int
  oldEpoch :: int

text \<open>
  \<^verbatim>\<open>count = maxRain = maxWind = accDawn = maxObsc = accSunE = accSunW = accSunS = accTemp = 0;\<close>
\<close>

definition reset :: "accumulator \<Rightarrow> accumulator" where
  "reset a = a\<lparr>count := 0, maxRain := 0, maxWind := 0, accDawn := 0, maxObsc := 0,
               accSunE := 0, accSunW := 0, accSunS := 0, accTemp := 0\<rparr>"

text \<open>The state before the loop: everything 0 and \<^verbatim>\<open>oldEpoch = -1\<close>.\<close>

definition init_acc :: accumulator where
  "init_acc = \<lparr>count = 0, maxRain = 0, maxWind = 0, accDawn = 0, maxObsc = 0,
               accSunE = 0, accSunW = 0, accSunS = 0, accTemp = 0, oldEpoch = - 1\<rparr>"

text \<open>The accumulating statements of lines 356 to 377.\<close>

definition accumulate :: "accumulator \<Rightarrow> measurement \<Rightarrow> accumulator" where
  "accumulate a m =
     a\<lparr>maxRain := (if rain m > maxRain a then rain m else maxRain a),
       maxWind := (if wind m > maxWind a then wind m else maxWind a),
       accDawn := accDawn a + dawn m,
       maxObsc := (if obsc m > maxObsc a then obsc m else maxObsc a),
       accSunE := accSunE a + sunE m,
       accSunW := accSunW a + sunW m,
       accSunS := accSunS a + sunS m,
       accTemp := accTemp a + temp m,
       count := count a + 1\<rparr>"

text \<open>
  \<^verbatim>\<open>(int)(acc / count + .5)\<close>: \<^verbatim>\<open>acc\<close> is a \<^verbatim>\<open>long\<close> and \<^verbatim>\<open>count\<close> an
  \<^verbatim>\<open>int\<close>, so the division is C's integer division, which truncates towards zero;
  the quotient \<open>k\<close> becomes a double, .5 is added and the cast truncates again. The
  sum is \<open>(2 * k + 1) * 2 ^ - 1\<close>, a double as it stands while \<open>\<bar>k\<bar> < 2 ^ 52\<close>, so no
  rounding is written here. The caller has made sure that \<open>cnt\<close> is not 0.
\<close>

definition round_avg :: "int \<Rightarrow> int \<Rightarrow> int" where
  "round_avg acc cnt = c_int (2 * (acc sdiv cnt) + 1, - 1)"

text \<open>The values of the line written at a window close, in the order they are printed.\<close>

record averaged =
  r_epoch :: int
  r_avgTemp :: int
  r_avgSunS :: int
  r_avgSunW :: int
  r_avgSunE :: int
  r_maxObsc :: cchar
  r_avgDawn :: int
  r_maxWind :: int
  r_maxRain :: cchar

text \<open>
  Lines 395 to 407.
  \<^verbatim>\<open>epoch = (ltime % interval <= interval * .05) ? (ltime/interval)*interval : ltime;\<close>
\<close>

definition averages :: "int \<Rightarrow> int \<Rightarrow> accumulator \<Rightarrow> averaged" where
  "averages interval ltime a =
     \<lparr>r_epoch = (if int_le_double (ltime smod interval) (dmul (round_frac 5 100) interval)
                 then (ltime sdiv interval) * interval else ltime),
      r_avgTemp = round_avg (accTemp a) (count a),
      r_avgSunS = round_avg (accSunS a) (count a),
      r_avgSunW = round_avg (accSunW a) (count a),
      r_avgSunE = round_avg (accSunE a) (count a),
      r_maxObsc = maxObsc a,
      r_avgDawn = round_avg (accDawn a) (count a),
      r_maxWind = maxWind a,
      r_maxRain = maxRain a\<rparr>"

datatype error = DivisionByZero

text \<open>
  Lines 356 to 412 for one accepted measurement at time \<open>ltime\<close>: fold it into the
  window, then close the window if \<^verbatim>\<open>ltime % interval < oldEpoch\<close>. A division by a
  \<^verbatim>\<open>count\<close> of 0 would end the process; it is the error of this model.
\<close>

definition accept ::
  "int \<Rightarrow> accumulator \<Rightarrow> measurement \<Rightarrow> int \<Rightarrow> error + accumulator \<times> averaged option" where
  "accept interval a m ltime =
     (let a1 = accumulate a m
      in if ltime smod interval < oldEpoch a1 then
           if count a1 = 0 then Inl DivisionByZero
           else Inr ((reset a1)\<lparr>oldEpoch := ltime smod interval\<rparr>,
                     Some (averages interval ltime a1))
         else Inr (a1\<lparr>oldEpoch := ltime smod interval\<rparr>, None))"

text \<open>The same over a list of accepted measurements with their arrival times.\<close>

fun accept_all ::
  "int \<Rightarrow> accumulator \<Rightarrow> (measurement \<times> int) list \<Rightarrow>
   error + accumulator \<times> averaged option list" where
  "accept_all interval a [] = Inr (a, [])"
| "accept_all interval a ((m, ltime) # ms) =
     (case accept interval a m ltime of
        Inl e \<Rightarrow> Inl e
      | Inr (a', r) \<Rightarrow>
          (case accept_all interval a' ms of
             Inl e \<Rightarrow> Inl e
           | Inr (a'', rs) \<Rightarrow> Inr (a'', r # rs)))"

section \<open>One pass of the endless loop\<close>

text \<open>
  What a pass writes: the snapshot file, the line of a window close, or the error line
  for syslog. \<open>Diagnostic err text\<close> is the error line with the mask and the text
  that \<^verbatim>\<open>%s\<close> prints for \<^verbatim>\<open>bufcpy\<close>. \<open>Diagnostic_overrun err bytes\<close> is the error
  line for a copy that holds no NUL: the text starts with the \<open>LINELEN - 1\<close> bytes
  copied and runs on into bytes the program has never written.
\<close>

datatype emission =
    Snapshot measurement
  | Periodic averaged
  | Diagnostic "32 word" "cchar list"
  | Diagnostic_overrun "32 word" "cchar list"

text \<open>
  \<^verbatim>\<open>syslog (LOG_INFO, "ELTAKO-MS: Error 0x%04x reading sensordata: %s", err, bufcpy);\<close>
\<close>

definition syslog_error :: "32 word \<Rightarrow> cchar list \<times> bool \<Rightarrow> emission" where
  "syslog_error err bufcpy =
     (if snd bufcpy then Diagnostic err (fst bufcpy) else Diagnostic_overrun err (fst bufcpy))"

text \<open>
  A pass reads the frame \<open>fr\<close> at time \<open>ltime\<close>. With \<^verbatim>\<open>err == 0\<close> the frame is
  decoded, the snapshot file is rewritten and the window is updated; otherwise
  \<^verbatim>\<open>syslog\<close> gets the mask and the copy of the datagram and nothing else happens.
\<close>

definition step ::
  "int \<Rightarrow> accumulator \<times> cchar list \<Rightarrow> cchar list \<times> int \<Rightarrow>
   error + (accumulator \<times> cchar list) \<times> emission list" where
  "step interval s ev =
     (case s of (a, buf) \<Rightarrow> case ev of (fr, ltime) \<Rightarrow>
        let buf1 = load_frame buf fr;
            bufcpy = bufcpy_of buf1;
            err = validate (length fr) buf1
        in if err = 0 then
             (case decode buf1 of (m, buf2) \<Rightarrow>
                (case accept interval a m ltime of
                   Inl e \<Rightarrow> Inl e
                 | Inr (a', r) \<Rightarrow>
                     Inr ((a', buf2),
                          Snapshot m # (case r of None \<Rightarrow> [] | Some x \<Rightarrow> [Periodic x]))))
           else Inr ((a, buf1), [syslog_error err bufcpy]))"

fun run ::
  "int \<Rightarrow> accumulator \<times> cchar list \<Rightarrow> (cchar list \<times> int) list \<Rightarrow>
   error + (accumulator \<times> cchar list) \<times> emission list" where
  "run interval s [] = Inr (s, [])"
| "run interval s (ev # evs) =
     (case step interval s ev of
        Inl e \<Rightarrow> Inl e
      | Inr (s', out) \<Rightarrow>
          (case run interval s' evs of
             Inl e \<Rightarrow> Inl e
           | Inr (s'', outs) \<Rightarrow> Inr (s'', out @ outs)))"

section \<open>Example datagrams\<close>

text \<open>The example datagram with its first byte changed from W to X.\<close>

definition x_frame :: "cchar list" where
  "x_frame = example_frame[0 := CH CHR ''X'']"

text \<open>The example datagram with one more digit behind its checksum field.\<close>

definition extra_digit_frame :: "cchar list" where
  "extra_digit_frame = example_frame @ cstr ''0''"


text \<open>Two valid datagrams that differ in the dawn field (002 and 003) only.\<close>

definition dawn2_frame :: "cchar list" where
  "dawn2_frame = cstr ''W+07.6016300N00201.2N?151515151515?1864''"

definition dawn3_frame :: "cchar list" where
  "dawn3_frame = cstr ''W+07.6016300N00301.2N?151515151515?1865''"

text \<open>The example datagram with both flags, obscurity and rain, set to J.\<close>

definition storm_frame :: "cchar list" where
  "storm_frame = cstr ''W+07.6016300J99901.2J?151515151515?1881''"

text \<open>What the example datagram says: +7.6 degrees, wind 1.2 m/s, bright and dry.\<close>

definition example_measurement :: measurement where
  "example_measurement =
     \<lparr>temp = 76, sunS = 1, sunW = 63, sunE = 0, obsc = CH CHR ''o'', dawn = 999,
      wind = 12, rain = CH CHR ''r''\<rparr>"

section \<open>Properties of the validator\<close>

lemma bit_chk: "bit (chk err cm) k = (bit err k \<or> (fst cm \<and> bit (snd cm) k))"
  by (simp add: chk_def bit_or_iff)

lemma bit_foldl_chk:
  "bit (foldl chk err cms) k = (bit err k \<or> (\<exists>cm\<in>set cms. fst cm \<and> bit (snd cm) k))"
  by (induction cms arbitrary: err) (auto simp: bit_chk)

lemma mask_bit: "(w AND push_bit k 1 \<noteq> 0) = bit w k" for w :: "32 word"
  by (simp add: bit_iff_and_push_bit_not_eq_0)

lemma mask_0001: "(w AND 0x0001 \<noteq> 0) = bit w 0" for w :: "32 word"
  using mask_bit[of w 0] by simp

lemma mask_1000: "(w AND 0x1000 \<noteq> 0) = bit w 12" for w :: "32 word"
  using mask_bit[of w 12] by simp

lemma mask_2000: "(w AND 0x2000 \<noteq> 0) = bit w 13" for w :: "32 word"
  using mask_bit[of w 13] by simp

lemma validate_bit0: "bit (validate n buf) 0 = (n \<noteq> 40)"
  unfolding validate_def Let_def bit_chk bit_foldl_chk
  by (simp add: sanity_checks_def)

lemma pre_bit12:
  "bit (foldl chk 0 (sanity_checks n buf)) 12 =
     (nondigit (buf ! 35) \<or> nondigit (buf ! 36) \<or> nondigit (buf ! 37) \<or> nondigit (buf ! 38))"
  unfolding bit_foldl_chk by (simp add: sanity_checks_def)

lemma pre_bit13: "\<not> bit (foldl chk 0 (sanity_checks n buf)) 13"
  unfolding bit_foldl_chk by (simp add: sanity_checks_def)

lemma validate_bit12:
  "bit (validate n buf) 12 =
     (nondigit (buf ! 35) \<or> nondigit (buf ! 36) \<or> nondigit (buf ! 37) \<or> nondigit (buf ! 38))"
  unfolding validate_def Let_def bit_chk pre_bit12 by simp

lemma validate_bit13:
  "bit (validate n buf) 13 =
     (nondigit (buf ! 35) \<or> nondigit (buf ! 36) \<or> nondigit (buf ! 37) \<or> nondigit (buf ! 38) \<or>
      checksum buf \<noteq> atoi (drop 35 buf))"
  unfolding validate_def Let_def bit_chk mask_1000 pre_bit12 using pre_bit13[of n buf] by simp

lemma foldl_add_upt:
  "foldl (\<lambda>s i. s + f i) a [m..<n] = a + (\<Sum>i = m..<n. f i)" for a :: int
  by (induction n arbitrary: a) (auto simp: add.assoc)

lemma checksum_sum: "checksum buf = (\<Sum>i<35. uint (buf ! i))"
  unfolding checksum_def foldl_add_upt by (simp add: lessThan_atLeast0)

lemma digit_range: "\<not> nondigit c \<Longrightarrow> 48 \<le> uint c \<and> uint c \<le> 57"
  by (simp add: nondigit_def word_less_def word_le_def not_less)

lemma digit_not_space: "\<not> nondigit c \<Longrightarrow> \<not> isspace_c c"
  by (auto simp: nondigit_def isspace_c_def word_less_def word_le_def)

lemma digit_not_sign: "\<not> nondigit c \<Longrightarrow> c \<noteq> CH CHR ''-'' \<and> c \<noteq> CH CHR ''+'' \<and> c \<noteq> CH CHR ''.''"
  by (auto simp: nondigit_def)

lemma atoi_4digits:
  assumes "\<not> nondigit a" "\<not> nondigit b" "\<not> nondigit c" "\<not> nondigit d" "nondigit z"
  shows "atoi (a # b # c # d # z # rest) =
         1000 * digit_val a + 100 * digit_val b + 10 * digit_val c + digit_val d"
proof -
  let ?v = "1000 * digit_val a + 100 * digit_val b + 10 * digit_val c + digit_val d"
  have r: "0 \<le> ?v" "?v \<le> 9999"
    using digit_range[OF assms(1)] digit_range[OF assms(2)] digit_range[OF assms(3)]
      digit_range[OF assms(4)]
    by (simp_all add: digit_val_def)
  have "strtol (a # b # c # d # z # rest) = ?v"
    using assms digit_not_space[of a] digit_not_sign[of a] r by (simp add: strtol_def)
  moreover have "sint (word_of_int ?v :: 32 word) = ?v"
    unfolding sint_sbintrunc' using r by (intro signed_take_bit_int_eq_self) simp_all
  ultimately show ?thesis by (simp add: atoi_def)
qed

lemma load_frame_nth:
  "i < length fr \<Longrightarrow> i < LINELEN \<Longrightarrow> load_frame buf fr ! i = fr ! i"
  by (simp add: load_frame_def nth_append)

lemma length_load_frame_ge: "length fr \<le> length (load_frame buf fr) \<or> LINELEN \<le> length (load_frame buf fr)"
  by (simp add: load_frame_def min_def)

lemma drop35_shape:
  assumes "40 \<le> length buf"
  shows "drop 35 buf = buf ! 35 # buf ! 36 # buf ! 37 # buf ! 38 # buf ! 39 # drop 40 buf"
proof -
  have "drop 35 buf = buf ! 35 # drop 36 buf" using assms Cons_nth_drop_Suc[of 35 buf] by simp
  moreover have "drop 36 buf = buf ! 36 # drop 37 buf" using assms Cons_nth_drop_Suc[of 36 buf] by simp
  moreover have "drop 37 buf = buf ! 37 # drop 38 buf" using assms Cons_nth_drop_Suc[of 37 buf] by simp
  moreover have "drop 38 buf = buf ! 38 # drop 39 buf" using assms Cons_nth_drop_Suc[of 38 buf] by simp
  moreover have "drop 39 buf = buf ! 39 # drop 40 buf" using assms Cons_nth_drop_Suc[of 39 buf] by simp
  ultimately show ?thesis by simp
qed

lemma validate_bit13_digits:
  assumes "40 \<le> length buf"
    and "\<not> nondigit (buf ! 35)" "\<not> nondigit (buf ! 36)" "\<not> nondigit (buf ! 37)"
        "\<not> nondigit (buf ! 38)" "nondigit (buf ! 39)"
  shows "bit (validate n buf) 13 =
         ((\<Sum>i<35. uint (buf ! i)) \<noteq>
          1000 * digit_val (buf ! 35) + 100 * digit_val (buf ! 36) +
          10 * digit_val (buf ! 37) + digit_val (buf ! 38))"
  using assms
  by (simp add: validate_bit13 drop35_shape[OF assms(1)] atoi_4digits checksum_sum)

text \<open>
  Claim C5, as the code has it: the length bit 0x0001 is set if and only if the number
  of bytes read, terminator included, is not 40; for a frame that ends in its
  terminator this means that the bytes before the terminator are not exactly 39.
\<close>

theorem length_bit_iff:
  "(validate (length fr) (load_frame buf fr) AND 0x0001 \<noteq> 0) = (length fr \<noteq> 40) \<and>
   (validate (length (p @ [ETX])) (load_frame buf (p @ [ETX])) AND 0x0001 \<noteq> 0) = (length p \<noteq> 39)"
  by (simp add: mask_0001 validate_bit0)

text \<open>
  Claim C5 as stated fails on the example datagram: it has 39 bytes before its
  terminator, not 40, and the length bit stays clear.
\<close>

theorem length_bit_counterexample:
  "\<not> ((validate (length (example_frame @ [ETX]))
          (load_frame (replicate LINELEN 0) (example_frame @ [ETX])) AND 0x0001 \<noteq> 0) =
       (length example_frame \<noteq> 40))"
  by code_simp

text \<open>The length theorem at the example datagram: 39 bytes and the terminator, bit clear.\<close>

theorem length_bit_iff_witness:
  "length example_frame = 39 \<and>
   validate (length (example_frame @ [ETX]))
     (load_frame (replicate LINELEN 0) (example_frame @ [ETX])) AND 0x0001 = 0"
proof -
  have l: "length example_frame = 39" by code_simp
  from length_bit_iff[of "example_frame @ [ETX]" "replicate LINELEN 0" example_frame] l
  show ?thesis by simp
qed

text \<open>
  Claim C6, as the code has it: in a frame whose bytes 35 to 38 are decimal digits and
  whose byte 39 is no digit (the terminator, in a frame of the right length), the
  checksum bit 0x2000 is set if and only if the sum of the unsigned bytes 0 to 34
  differs from the number written in bytes 35 to 38; and in every frame the checksum
  bit is set whenever the four-digit bit 0x1000 is.
\<close>

theorem checksum_bit_iff:
  "(40 \<le> length fr \<and> length fr \<le> LINELEN \<and>
    \<not> nondigit (fr ! 35) \<and> \<not> nondigit (fr ! 36) \<and> \<not> nondigit (fr ! 37) \<and>
    \<not> nondigit (fr ! 38) \<and> nondigit (fr ! 39) \<longrightarrow>
    (validate (length fr) (load_frame buf fr) AND 0x2000 \<noteq> 0) =
    ((\<Sum>i<35. uint (fr ! i)) \<noteq>
     1000 * digit_val (fr ! 35) + 100 * digit_val (fr ! 36) +
     10 * digit_val (fr ! 37) + digit_val (fr ! 38))) \<and>
   (validate (length fr) (load_frame buf fr) AND 0x1000 \<noteq> 0 \<longrightarrow>
    validate (length fr) (load_frame buf fr) AND 0x2000 \<noteq> 0)"
proof (intro conjI impI)
  assume a: "40 \<le> length fr \<and> length fr \<le> LINELEN \<and>
    \<not> nondigit (fr ! 35) \<and> \<not> nondigit (fr ! 36) \<and> \<not> nondigit (fr ! 37) \<and>
    \<not> nondigit (fr ! 38) \<and> nondigit (fr ! 39)"
  let ?b = "load_frame buf fr"
  have nth: "?b ! i = fr ! i" if "i < 40" for i
    using that a by (intro load_frame_nth) (auto simp: LINELEN_def)
  have len: "40 \<le> length ?b"
    using a length_load_frame_ge[of fr buf] by (auto simp: LINELEN_def)
  have sum: "(\<Sum>i<35. uint (?b ! i)) = (\<Sum>i<35. uint (fr ! i))"
    by (rule sum.cong) (auto simp: nth)
  have "bit (validate (length fr) ?b) 13 =
         ((\<Sum>i<35. uint (?b ! i)) \<noteq>
          1000 * digit_val (?b ! 35) + 100 * digit_val (?b ! 36) +
          10 * digit_val (?b ! 37) + digit_val (?b ! 38))"
    using a by (intro validate_bit13_digits len) (simp_all add: nth)
  then show "(validate (length fr) ?b AND 0x2000 \<noteq> 0) =
    ((\<Sum>i<35. uint (fr ! i)) \<noteq>
     1000 * digit_val (fr ! 35) + 100 * digit_val (fr ! 36) +
     10 * digit_val (fr ! 37) + digit_val (fr ! 38))"
    by (simp add: mask_2000 sum nth)
next
  assume "validate (length fr) (load_frame buf fr) AND 0x1000 \<noteq> 0"
  then show "validate (length fr) (load_frame buf fr) AND 0x2000 \<noteq> 0"
    unfolding mask_1000 mask_2000 validate_bit12 validate_bit13 by blast
qed

text \<open>
  Claim C6 as stated fails on a frame with a fifth digit behind the checksum field:
  bytes 35 to 38 are digits, the byte sum 1889 equals the number in bytes 35 to 38, and
  the checksum bit is set all the same, since \<^verbatim>\<open>atoi\<close> reads on to 18890.
\<close>

theorem checksum_bit_counterexample:
  "\<not> nondigit ((extra_digit_frame @ [ETX]) ! 35) \<and> \<not> nondigit ((extra_digit_frame @ [ETX]) ! 36) \<and>
   \<not> nondigit ((extra_digit_frame @ [ETX]) ! 37) \<and> \<not> nondigit ((extra_digit_frame @ [ETX]) ! 38) \<and>
   sum_list (map uint (take 35 (extra_digit_frame @ [ETX]))) = 1889 \<and>
   1000 * digit_val ((extra_digit_frame @ [ETX]) ! 35) + 100 * digit_val ((extra_digit_frame @ [ETX]) ! 36) +
     10 * digit_val ((extra_digit_frame @ [ETX]) ! 37) + digit_val ((extra_digit_frame @ [ETX]) ! 38) = 1889 \<and>
   validate (length (extra_digit_frame @ [ETX]))
     (load_frame (replicate LINELEN 0) (extra_digit_frame @ [ETX])) AND 0x2000 \<noteq> 0"
  by code_simp

text \<open>The example datagram meets the hypotheses of the checksum theorem.\<close>

theorem checksum_bit_iff_witness:
  "40 \<le> length (example_frame @ [ETX]) \<and> length (example_frame @ [ETX]) \<le> LINELEN \<and>
   \<not> nondigit ((example_frame @ [ETX]) ! 35) \<and> \<not> nondigit ((example_frame @ [ETX]) ! 36) \<and>
   \<not> nondigit ((example_frame @ [ETX]) ! 37) \<and> \<not> nondigit ((example_frame @ [ETX]) ! 38) \<and>
   nondigit ((example_frame @ [ETX]) ! 39) \<and>
   (validate (length (example_frame @ [ETX])) (load_frame (replicate LINELEN 0) (example_frame @ [ETX])) AND 0x2000 \<noteq> 0) =
    ((\<Sum>i<35. uint ((example_frame @ [ETX]) ! i)) \<noteq>
     1000 * digit_val ((example_frame @ [ETX]) ! 35) + 100 * digit_val ((example_frame @ [ETX]) ! 36) +
     10 * digit_val ((example_frame @ [ETX]) ! 37) + digit_val ((example_frame @ [ETX]) ! 38))"
proof -
  have h: "40 \<le> length (example_frame @ [ETX]) \<and> length (example_frame @ [ETX]) \<le> LINELEN \<and>
   \<not> nondigit ((example_frame @ [ETX]) ! 35) \<and> \<not> nondigit ((example_frame @ [ETX]) ! 36) \<and>
   \<not> nondigit ((example_frame @ [ETX]) ! 37) \<and> \<not> nondigit ((example_frame @ [ETX]) ! 38) \<and>
   nondigit ((example_frame @ [ETX]) ! 39)"
    by code_simp
  from checksum_bit_iff[of "example_frame @ [ETX]" "replicate LINELEN 0"] h show ?thesis
    by blast
qed

lemma take_load_frame:
  "k \<le> LINELEN \<Longrightarrow>
   take k (load_frame buf fr) = take k fr @ take (k - length fr) (0 # drop (Suc (length fr)) buf)"
  by (simp add: load_frame_def min_def)


lemma bufcpy_short:
  assumes "length fr < LINELEN - 1"
  shows "bufcpy_of (load_frame buf fr) = (takeWhile (\<lambda>c. c \<noteq> 0) fr, True)"
proof -
  have "take (LINELEN - 1) (load_frame buf fr) =
        fr @ 0 # take (LINELEN - 1 - length fr - 1) (drop (Suc (length fr)) buf)"
    using assms by (simp add: take_load_frame take_Cons')
  then show ?thesis
    by (auto simp: bufcpy_of_def takeWhile_append takeWhile_eq_all_conv[THEN iffD2])
qed



lemma sanity_checks_cong:
  assumes "\<And>i. i < 39 \<Longrightarrow> b1 ! i = b2 ! i"
  shows "sanity_checks n b1 = sanity_checks n b2"
  unfolding sanity_checks_def by (simp add: assms)

lemma validate_cong:
  assumes eq: "\<And>i. i < 40 \<Longrightarrow> b1 ! i = b2 ! i"
    and len: "40 \<le> length b1" "40 \<le> length b2"
    and z: "nondigit (b1 ! 39)"
  shows "validate n b1 = validate n b2"
proof -
  have sc: "sanity_checks n b1 = sanity_checks n b2"
    by (rule sanity_checks_cong) (simp add: eq)
  have cs: "checksum b1 = checksum b2"
    unfolding checksum_sum by (rule sum.cong) (auto simp: eq)
  show ?thesis
  proof (cases "nondigit (b1 ! 35) \<or> nondigit (b1 ! 36) \<or> nondigit (b1 ! 37) \<or> nondigit (b1 ! 38)")
    case True
    then have "bit (foldl chk 0 (sanity_checks n b1)) 12"
      by (simp add: pre_bit12)
    then show ?thesis
      unfolding validate_def Let_def sc[symmetric] mask_1000 by (simp add: chk_def)
  next
    case False
    then have d1: "\<not> nondigit (b1 ! 35)" "\<not> nondigit (b1 ! 36)" "\<not> nondigit (b1 ! 37)"
      "\<not> nondigit (b1 ! 38)" by auto
    then have d2: "\<not> nondigit (b2 ! 35)" "\<not> nondigit (b2 ! 36)" "\<not> nondigit (b2 ! 37)"
      "\<not> nondigit (b2 ! 38)" "nondigit (b2 ! 39)" using eq[of 35] eq[of 36] eq[of 37] eq[of 38] eq[of 39] z
      by auto
    have "atoi (drop 35 b1) = atoi (drop 35 b2)"
      unfolding drop35_shape[OF len(1)] drop35_shape[OF len(2)]
      using d1 d2 z eq[of 35] eq[of 36] eq[of 37] eq[of 38] by (simp add: atoi_4digits)
    then show ?thesis
      unfolding validate_def Let_def sc cs by simp
  qed
qed

lemma x_frame_validate: "validate (length (x_frame @ [ETX])) (load_frame buf (x_frame @ [ETX])) = 0x2002"
proof -
  let ?fr = "x_frame @ [ETX]"
  have l: "length ?fr = 40" by code_simp
  have z: "nondigit (?fr ! 39)" by code_simp
  have "validate (length ?fr) (load_frame buf ?fr) =
        validate (length ?fr) (load_frame (replicate LINELEN 0) ?fr)"
  proof (rule validate_cong)
    fix i :: nat assume "i < 40"
    then show "load_frame buf ?fr ! i = load_frame (replicate LINELEN 0) ?fr ! i"
      using l by (simp add: load_frame_nth LINELEN_def)
  next
    show "40 \<le> length (load_frame buf ?fr)"
      using length_load_frame_ge[of ?fr buf] l by (auto simp: LINELEN_def)
    show "40 \<le> length (load_frame (replicate LINELEN 0) ?fr)"
      using length_load_frame_ge[of ?fr "replicate LINELEN 0"] l by (auto simp: LINELEN_def)
    show "nondigit (load_frame buf ?fr ! 39)"
      using z l by (simp add: load_frame_nth LINELEN_def)
  qed
  also have "\<dots> = 0x2002" by code_simp
  finally show ?thesis .
qed

text \<open>
  Claim C4, as the code has it: the example datagram with X as its first byte gets the
  mask 0x2002, the marker bit and the checksum bit (the checksum field still holds the
  sum for W); the pass leaves the window untouched, decodes nothing and writes only the
  diagnostic with the mask and the bytes read.
\<close>

theorem marker_example:
  "validate (length (x_frame @ [ETX])) (load_frame buf (x_frame @ [ETX])) = 0x2002 \<and>
   step interval (a, buf) (x_frame @ [ETX], ltime) =
     Inr ((a, load_frame buf (x_frame @ [ETX])), [Diagnostic 0x2002 (x_frame @ [ETX])])"
proof -
  have l: "length (x_frame @ [ETX]) < LINELEN - 1" by code_simp
  have nz: "takeWhile (\<lambda>c. c \<noteq> 0) (x_frame @ [ETX]) = x_frame @ [ETX]" by code_simp
  have "step interval (a, buf) (x_frame @ [ETX], ltime) =
     Inr ((a, load_frame buf (x_frame @ [ETX])), [Diagnostic 0x2002 (x_frame @ [ETX])])"
    unfolding step_def Let_def prod.case x_frame_validate bufcpy_short[OF l] nz
    by (simp add: syslog_error_def)
  then show ?thesis
    using x_frame_validate by blast
qed

text \<open>Claim C4 as stated fails: the mask is not the marker bit alone.\<close>

theorem marker_example_counterexample:
  "validate (length (x_frame @ [ETX])) (load_frame (replicate LINELEN 0) (x_frame @ [ETX])) \<noteq> 0x0002"
  by code_simp

text \<open>The marker theorem in the first pass of the loop, with the default interval.\<close>

theorem marker_example_witness:
  "step 60 (init_acc, replicate LINELEN 0) (x_frame @ [ETX], 1207234980) =
     Inr ((init_acc, load_frame (replicate LINELEN 0) (x_frame @ [ETX])),
          [Diagnostic 0x2002 (x_frame @ [ETX])])"
  using marker_example[of "replicate LINELEN 0" 60 init_acc 1207234980] by blast

section \<open>Properties of the window accumulator\<close>

text \<open>
  What the averaging expression yields: the truncated quotient, and one more than it
  where the quotient is negative. The .5 never rounds anything up to the next integer.
\<close>

lemma round_avg_eq:
  "round_avg acc cnt = (if 0 \<le> acc sdiv cnt then acc sdiv cnt else acc sdiv cnt + 1)"
  by (simp add: round_avg_def c_int_def sgn_if) presburger

lemma smod_nonneg: "0 \<le> k \<Longrightarrow> 0 \<le> k smod l" for k l :: int
  by (cases "l = 0") (simp_all add: signed_modulo_int_def sgn_if)

lemma oldEpoch_accumulate [simp]: "oldEpoch (accumulate a m) = oldEpoch a"
  by (simp add: accumulate_def)

lemma count_accumulate [simp]: "count (accumulate a m) = count a + 1"
  by (simp add: accumulate_def)

lemma reset_fields [simp]:
  "count (reset a) = 0" "maxRain (reset a) = 0" "maxWind (reset a) = 0" "accDawn (reset a) = 0"
  "maxObsc (reset a) = 0" "accSunE (reset a) = 0" "accSunW (reset a) = 0"
  "accSunS (reset a) = 0" "accTemp (reset a) = 0" "oldEpoch (reset a) = oldEpoch a"
  by (simp_all add: reset_def)

lemma reset_idem [simp]: "reset (reset a) = reset a"
  by (simp add: reset_def)

lemma reset_oldEpoch_update [simp]: "reset (a\<lparr>oldEpoch := e\<rparr>) = (reset a)\<lparr>oldEpoch := e\<rparr>"
  by (simp add: reset_def)

lemma reset_init [simp]: "reset init_acc = init_acc"
  by (simp add: reset_def init_acc_def)

lemma accept_cases:
  assumes "0 \<le> count a"
  shows "accept interval a m ltime =
     (if ltime smod interval < oldEpoch a
      then Inr ((reset (accumulate a m))\<lparr>oldEpoch := ltime smod interval\<rparr>,
                Some (averages interval ltime (accumulate a m)))
      else Inr ((accumulate a m)\<lparr>oldEpoch := ltime smod interval\<rparr>, None))"
  using assms by (simp add: accept_def Let_def)

lemma step_total:
  assumes "0 \<le> count a"
  shows "\<exists>a' buf' outs. step interval (a, buf) (fr, ltime) = Inr ((a', buf'), outs)"
  using assms by (auto simp: step_def Let_def accept_cases split: prod.splits)

lemma step_inv:
  assumes "0 \<le> count a" "count a = 0 \<longrightarrow> reset a = a"
    and "step interval (a, buf) ev = Inr ((a', buf'), outs)"
  shows "0 \<le> count a' \<and> (count a' = 0 \<longrightarrow> reset a' = a')"
  using assms
  by (auto simp: step_def Let_def accept_cases split: prod.splits if_splits)

lemma run_inv:
  assumes "0 \<le> count a" "count a = 0 \<longrightarrow> reset a = a"
  shows "\<exists>a' buf' outs. run interval (a, buf) evs = Inr ((a', buf'), outs) \<and>
           0 \<le> count a' \<and> (count a' = 0 \<longrightarrow> reset a' = a')"
  using assms
proof (induction evs arbitrary: a buf)
  case Nil
  then show ?case by simp
next
  case (Cons ev evs)
  obtain fr ltime where ev: "ev = (fr, ltime)" by (cases ev)
  from step_total[OF Cons.prems(1), of interval buf fr ltime]
  obtain a1 buf1 out1 where s: "step interval (a, buf) ev = Inr ((a1, buf1), out1)"
    unfolding ev by blast
  from step_inv[OF Cons.prems s] have i: "0 \<le> count a1" "count a1 = 0 \<longrightarrow> reset a1 = a1"
    by auto
  from Cons.IH[OF i, of buf1] obtain a' buf' outs where
    r: "run interval (a1, buf1) evs = Inr ((a', buf'), outs)"
      and j: "0 \<le> count a' \<and> (count a' = 0 \<longrightarrow> reset a' = a')"
    by blast
  show ?case using s r j by simp
qed

lemma step_periodic:
  assumes "0 \<le> count a" "step interval (a, buf) (fr, ltime) = Inr ((a', buf'), outs)"
    and "Periodic r \<in> set outs"
  shows "validate (length fr) (load_frame buf fr) = 0 \<and>
         ltime smod interval < oldEpoch a \<and>
         r = averages interval ltime (accumulate a (fst (decode (load_frame buf fr)))) \<and>
         a' = (reset (accumulate a (fst (decode (load_frame buf fr)))))\<lparr>oldEpoch := ltime smod interval\<rparr>"
  using assms
  by (auto simp: step_def Let_def accept_cases syslog_error_def split: prod.splits if_splits)


text \<open>
  Claim C3: for an accumulator the loop can hold (the count is not negative),
  \<open>accept\<close> returns a record exactly when \<^verbatim>\<open>ltime % interval\<close> is less than the
  stored \<^verbatim>\<open>oldEpoch\<close>, and stores the new phase; from the initial state, with
  \<^verbatim>\<open>oldEpoch = -1\<close>, the first sample closes nothing; and samples at the phases
  5, 8, 2, 9, 1 of an interval of 10 close a window at the third and the fifth only.
\<close>

theorem accept_close_iff:
  "(0 \<le> count a \<longrightarrow>
      (\<exists>a' r. accept interval a m ltime = Inr (a', r) \<and>
         (r \<noteq> None) = (ltime smod interval < oldEpoch a) \<and>
         oldEpoch a' = ltime smod interval)) \<and>
   (0 \<le> ltime \<and> 0 < interval \<longrightarrow>
      (\<exists>a'. accept interval init_acc m ltime = Inr (a', None))) \<and>
   (t1 smod 10 = 5 \<and> t2 smod 10 = 8 \<and> t3 smod 10 = 2 \<and> t4 smod 10 = 9 \<and> t5 smod 10 = 1 \<longrightarrow>
      (\<exists>a' r3 r5.
         accept_all 10 init_acc [(m1, t1), (m2, t2), (m3, t3), (m4, t4), (m5, t5)] =
         Inr (a', [None, None, Some r3, None, Some r5])))"
proof (intro conjI impI)
  assume "0 \<le> count a"
  then show "\<exists>a' r. accept interval a m ltime = Inr (a', r) \<and>
         (r \<noteq> None) = (ltime smod interval < oldEpoch a) \<and>
         oldEpoch a' = ltime smod interval"
    by (simp add: accept_cases)
next
  assume "0 \<le> ltime \<and> 0 < interval"
  then have "\<not> ltime smod interval < - 1"
    using smod_nonneg[of ltime interval] by simp
  then show "\<exists>a'. accept interval init_acc m ltime = Inr (a', None)"
    by (simp add: accept_def Let_def init_acc_def accumulate_def)
next
  assume "t1 smod 10 = 5 \<and> t2 smod 10 = 8 \<and> t3 smod 10 = 2 \<and> t4 smod 10 = 9 \<and> t5 smod 10 = 1"
  then show "\<exists>a' r3 r5.
         accept_all 10 init_acc [(m1, t1), (m2, t2), (m3, t3), (m4, t4), (m5, t5)] =
         Inr (a', [None, None, Some r3, None, Some r5])"
    by (simp add: accept_def Let_def init_acc_def accumulate_def reset_def)
qed

text \<open>The three parts of C3 at concrete inputs: times 5, 8, 12, 19, 21 have the phases 5, 8, 2, 9, 1.\<close>

theorem accept_close_iff_witness:
  "(\<exists>a' r. accept 10 init_acc example_measurement 5 = Inr (a', r) \<and>
      (r \<noteq> None) = ((5::int) smod 10 < oldEpoch init_acc)) \<and>
   (\<exists>a'. accept 10 init_acc example_measurement 5 = Inr (a', None)) \<and>
   (\<exists>a' r3 r5.
      accept_all 10 init_acc
        [(example_measurement, 5), (example_measurement, 8), (example_measurement, 12),
         (example_measurement, 19), (example_measurement, 21)] =
      Inr (a', [None, None, Some r3, None, Some r5]))"
proof -
  have c: "0 \<le> count init_acc" by (simp add: init_acc_def)
  have t: "(0::int) \<le> 5 \<and> (0::int) < 10" by simp
  have p: "(5::int) smod 10 = 5 \<and> (8::int) smod 10 = 8 \<and> (12::int) smod 10 = 2 \<and>
           (19::int) smod 10 = 9 \<and> (21::int) smod 10 = 1"
    by (simp add: signed_modulo_int_def)
  from accept_close_iff[of init_acc 10 example_measurement 5 5 8 12 19 21 example_measurement
      example_measurement example_measurement example_measurement example_measurement] c t p
  show ?thesis by blast
qed

lemma dawn_frames_close:
  "case run 10 (init_acc, replicate LINELEN 0) [(dawn2_frame @ [ETX], 5)] of
     Inl _ \<Rightarrow> False
   | Inr (s, _) \<Rightarrow>
       (case step 10 s (dawn3_frame @ [ETX], 12) of
          Inl _ \<Rightarrow> False
        | Inr (_, outs') \<Rightarrow>
            list_ex (\<lambda>x. case x of Periodic r \<Rightarrow> True | _ \<Rightarrow> False) outs')"
  by code_simp

lemma list_ex_periodic:
  "list_ex (\<lambda>x. case x of Periodic r \<Rightarrow> True | _ \<Rightarrow> False) outs \<Longrightarrow> \<exists>r. Periodic r \<in> set outs"
  by (induction outs) (auto split: emission.splits)

text \<open>
  Claim C7: from the start of the loop no pass divides by zero, whatever frames arrive
  at whatever times: every run ends in a state, not in the error. In that state the
  count is not negative, and a count of 0 means that the window is in its reset state.
  Every further pass ends in a state as well, and if it writes an averaged record
  then the frame was valid, the count the averages were divided by is positive, and the
  window is reset afterwards.
\<close>

theorem no_division_by_zero:
  "\<exists>a buf outs.
     run interval (init_acc, buf0) evs = Inr ((a, buf), outs) \<and>
     0 \<le> count a \<and> (count a = 0 \<longrightarrow> reset a = a) \<and>
     (\<forall>fr ltime. \<exists>a' buf' outs'.
        step interval (a, buf) (fr, ltime) = Inr ((a', buf'), outs') \<and>
        (\<forall>r. Periodic r \<in> set outs' \<longrightarrow>
           validate (length fr) (load_frame buf fr) = 0 \<and>
           0 < count (accumulate a (fst (decode (load_frame buf fr)))) \<and>
           r = averages interval ltime (accumulate a (fst (decode (load_frame buf fr)))) \<and>
           count a' = 0 \<and> reset a' = a'))"
proof -
  have i: "0 \<le> count init_acc" "count init_acc = 0 \<longrightarrow> reset init_acc = init_acc"
    by (simp_all add: init_acc_def reset_def)
  from run_inv[OF i, of interval buf0 evs] obtain a buf outs where
    r: "run interval (init_acc, buf0) evs = Inr ((a, buf), outs)"
      and c: "0 \<le> count a" and z: "count a = 0 \<longrightarrow> reset a = a"
    by blast
  have "\<exists>a' buf' outs'.
        step interval (a, buf) (fr, ltime) = Inr ((a', buf'), outs') \<and>
        (\<forall>r. Periodic r \<in> set outs' \<longrightarrow>
           validate (length fr) (load_frame buf fr) = 0 \<and>
           0 < count (accumulate a (fst (decode (load_frame buf fr)))) \<and>
           r = averages interval ltime (accumulate a (fst (decode (load_frame buf fr)))) \<and>
           count a' = 0 \<and> reset a' = a')" for fr ltime
  proof -
    from step_total[OF c, of interval buf fr ltime] obtain a' buf' outs' where
      s: "step interval (a, buf) (fr, ltime) = Inr ((a', buf'), outs')" by blast
    have "validate (length fr) (load_frame buf fr) = 0 \<and>
           0 < count (accumulate a (fst (decode (load_frame buf fr)))) \<and>
           r = averages interval ltime (accumulate a (fst (decode (load_frame buf fr)))) \<and>
           count a' = 0 \<and> reset a' = a'" if "Periodic r \<in> set outs'" for r
      using step_periodic[OF c s that] c by simp
    with s show ?thesis by blast
  qed
  with r c z show ?thesis by blast
qed

text \<open>
  A run that closes a window: after the first datagram at time 5 the second, at time
  12, writes an averaged record, and the pass ends with a reset window.
\<close>

theorem no_division_by_zero_witness:
  "\<exists>a buf outs.
     run 10 (init_acc, replicate LINELEN 0) [(dawn2_frame @ [ETX], 5)] = Inr ((a, buf), outs) \<and>
     0 \<le> count a \<and>
     (\<exists>a' buf' outs'.
        step 10 (a, buf) (dawn3_frame @ [ETX], 12) = Inr ((a', buf'), outs') \<and>
        list_ex (\<lambda>x. case x of Periodic r \<Rightarrow> True | _ \<Rightarrow> False) outs' \<and>
        count a' = 0 \<and> reset a' = a')"
proof -
  from no_division_by_zero[of 10 "replicate LINELEN 0" "[(dawn2_frame @ [ETX], 5)]"]
  obtain a buf outs where
    r: "run 10 (init_acc, replicate LINELEN 0) [(dawn2_frame @ [ETX], 5)] = Inr ((a, buf), outs)"
    and c: "0 \<le> count a"
    and s: "\<forall>fr ltime. \<exists>a' buf' outs'.
        step 10 (a, buf) (fr, ltime) = Inr ((a', buf'), outs') \<and>
        (\<forall>r. Periodic r \<in> set outs' \<longrightarrow>
           validate (length fr) (load_frame buf fr) = 0 \<and>
           0 < count (accumulate a (fst (decode (load_frame buf fr)))) \<and>
           r = averages 10 ltime (accumulate a (fst (decode (load_frame buf fr)))) \<and>
           count a' = 0 \<and> reset a' = a')"
    by blast
  from s obtain a' buf' outs' where
    s1: "step 10 (a, buf) (dawn3_frame @ [ETX], 12) = Inr ((a', buf'), outs')"
    and s2: "\<forall>r. Periodic r \<in> set outs' \<longrightarrow> count a' = 0 \<and> reset a' = a'"
    by blast
  have p: "list_ex (\<lambda>x. case x of Periodic r \<Rightarrow> True | _ \<Rightarrow> False) outs'"
    using dawn_frames_close unfolding r by (simp add: s1)
  then obtain r where "Periodic r \<in> set outs'"
    using list_ex_periodic by blast
  with s2 have "count a' = 0 \<and> reset a' = a'" by blast
  with r c s1 p show ?thesis by blast
qed




text \<open>
  Claim C10: whenever a pass of a run from the initial state writes an averaged
  record, the sample of that pass is in it. The record is made of the accumulator with
  the sample already folded in: the count is the old count plus one, at least 1, every
  sum is the old sum plus the sample's value, every maximum is the greater of the old
  maximum and the sample's value. Each average of the record is the old sum plus the
  sample's value, divided by the old count plus one, and each maximum of the record is
  the greater of the old maximum and the sample's value. The window left behind is
  empty: count, sums and maxima are all 0.
\<close>

theorem close_includes_sample:
  "run interval (init_acc, buf0) evs = Inr ((a, buf), outs) \<and>
   step interval (a, buf) (fr, ltime) = Inr ((a', buf'), outs') \<and>
   Periodic r \<in> set outs' \<and> m = fst (decode (load_frame buf fr)) \<longrightarrow>
     Snapshot m \<in> set outs' \<and>
     r = averages interval ltime (accumulate a m) \<and>
     count (accumulate a m) = count a + 1 \<and> 1 \<le> count (accumulate a m) \<and>
     accTemp (accumulate a m) = accTemp a + temp m \<and>
     accDawn (accumulate a m) = accDawn a + dawn m \<and>
     accSunS (accumulate a m) = accSunS a + sunS m \<and>
     accSunW (accumulate a m) = accSunW a + sunW m \<and>
     accSunE (accumulate a m) = accSunE a + sunE m \<and>
     maxWind (accumulate a m) = max (maxWind a) (wind m) \<and>
     maxRain (accumulate a m) = max (maxRain a) (rain m) \<and>
     maxObsc (accumulate a m) = max (maxObsc a) (obsc m) \<and>
     r_avgTemp r = round_avg (accTemp a + temp m) (count a + 1) \<and>
     r_avgDawn r = round_avg (accDawn a + dawn m) (count a + 1) \<and>
     r_avgSunS r = round_avg (accSunS a + sunS m) (count a + 1) \<and>
     r_avgSunW r = round_avg (accSunW a + sunW m) (count a + 1) \<and>
     r_avgSunE r = round_avg (accSunE a + sunE m) (count a + 1) \<and>
     r_maxWind r = max (maxWind a) (wind m) \<and>
     r_maxRain r = max (maxRain a) (rain m) \<and>
     r_maxObsc r = max (maxObsc a) (obsc m) \<and>
     count a' = 0 \<and> accTemp a' = 0 \<and> accDawn a' = 0 \<and> accSunS a' = 0 \<and>
     accSunW a' = 0 \<and> accSunE a' = 0 \<and> maxWind a' = 0 \<and> maxRain a' = 0 \<and> maxObsc a' = 0"
proof (intro impI)
  assume h: "run interval (init_acc, buf0) evs = Inr ((a, buf), outs) \<and>
   step interval (a, buf) (fr, ltime) = Inr ((a', buf'), outs') \<and>
   Periodic r \<in> set outs' \<and> m = fst (decode (load_frame buf fr))"
  have i: "0 \<le> count init_acc" "count init_acc = 0 \<longrightarrow> reset init_acc = init_acc"
    by (simp_all add: init_acc_def reset_def)
  from run_inv[OF i, of interval buf0 evs] h have c: "0 \<le> count a"
    by auto
  from h have s: "step interval (a, buf) (fr, ltime) = Inr ((a', buf'), outs')"
    and p: "Periodic r \<in> set outs'" and m: "m = fst (decode (load_frame buf fr))"
    by auto
  from step_periodic[OF c s p] have
    v: "validate (length fr) (load_frame buf fr) = 0"
    and r: "r = averages interval ltime (accumulate a m)"
    and a': "a' = (reset (accumulate a m))\<lparr>oldEpoch := ltime smod interval\<rparr>"
    unfolding m by auto
  have sn: "Snapshot m \<in> set outs'"
    using s v c unfolding m
    by (auto simp: step_def Let_def accept_cases split: prod.splits if_splits)
  have acc: "accTemp (accumulate a m) = accTemp a + temp m \<and>
     accDawn (accumulate a m) = accDawn a + dawn m \<and>
     accSunS (accumulate a m) = accSunS a + sunS m \<and>
     accSunW (accumulate a m) = accSunW a + sunW m \<and>
     accSunE (accumulate a m) = accSunE a + sunE m \<and>
     maxWind (accumulate a m) = max (maxWind a) (wind m) \<and>
     maxRain (accumulate a m) = max (maxRain a) (rain m) \<and>
     maxObsc (accumulate a m) = max (maxObsc a) (obsc m)"
    by (auto simp: accumulate_def max_def)
  have rec: "r_avgTemp r = round_avg (accTemp a + temp m) (count a + 1) \<and>
     r_avgDawn r = round_avg (accDawn a + dawn m) (count a + 1) \<and>
     r_avgSunS r = round_avg (accSunS a + sunS m) (count a + 1) \<and>
     r_avgSunW r = round_avg (accSunW a + sunW m) (count a + 1) \<and>
     r_avgSunE r = round_avg (accSunE a + sunE m) (count a + 1) \<and>
     r_maxWind r = max (maxWind a) (wind m) \<and>
     r_maxRain r = max (maxRain a) (rain m) \<and>
     r_maxObsc r = max (maxObsc a) (obsc m)"
    unfolding r by (auto simp: averages_def accumulate_def max_def)
  show "Snapshot m \<in> set outs' \<and>
     r = averages interval ltime (accumulate a m) \<and>
     count (accumulate a m) = count a + 1 \<and> 1 \<le> count (accumulate a m) \<and>
     accTemp (accumulate a m) = accTemp a + temp m \<and>
     accDawn (accumulate a m) = accDawn a + dawn m \<and>
     accSunS (accumulate a m) = accSunS a + sunS m \<and>
     accSunW (accumulate a m) = accSunW a + sunW m \<and>
     accSunE (accumulate a m) = accSunE a + sunE m \<and>
     maxWind (accumulate a m) = max (maxWind a) (wind m) \<and>
     maxRain (accumulate a m) = max (maxRain a) (rain m) \<and>
     maxObsc (accumulate a m) = max (maxObsc a) (obsc m) \<and>
     r_avgTemp r = round_avg (accTemp a + temp m) (count a + 1) \<and>
     r_avgDawn r = round_avg (accDawn a + dawn m) (count a + 1) \<and>
     r_avgSunS r = round_avg (accSunS a + sunS m) (count a + 1) \<and>
     r_avgSunW r = round_avg (accSunW a + sunW m) (count a + 1) \<and>
     r_avgSunE r = round_avg (accSunE a + sunE m) (count a + 1) \<and>
     r_maxWind r = max (maxWind a) (wind m) \<and>
     r_maxRain r = max (maxRain a) (rain m) \<and>
     r_maxObsc r = max (maxObsc a) (obsc m) \<and>
     count a' = 0 \<and> accTemp a' = 0 \<and> accDawn a' = 0 \<and> accSunS a' = 0 \<and>
     accSunW a' = 0 \<and> accSunE a' = 0 \<and> maxWind a' = 0 \<and> maxRain a' = 0 \<and> maxObsc a' = 0"
    using sn r c acc rec by (simp add: a')
qed

text \<open>
  The run of the two dawn datagrams at times 5 and 12 with an interval of 10: the
  second pass closes the window and its record holds both samples.
\<close>

theorem close_includes_sample_witness:
  "\<exists>a buf outs a' buf' outs' r.
     run 10 (init_acc, replicate LINELEN 0) [(dawn2_frame @ [ETX], 5)] = Inr ((a, buf), outs) \<and>
     step 10 (a, buf) (dawn3_frame @ [ETX], 12) = Inr ((a', buf'), outs') \<and>
     Periodic r \<in> set outs' \<and>
     Snapshot (fst (decode (load_frame buf (dawn3_frame @ [ETX])))) \<in> set outs' \<and>
     r = averages 10 12 (accumulate a (fst (decode (load_frame buf (dawn3_frame @ [ETX]))))) \<and>
     1 \<le> count (accumulate a (fst (decode (load_frame buf (dawn3_frame @ [ETX]))))) \<and>
     count a' = 0"
proof -
  have i: "0 \<le> count init_acc" "count init_acc = 0 \<longrightarrow> reset init_acc = init_acc"
    by (simp_all add: init_acc_def reset_def)
  from run_inv[OF i, of 10 "replicate LINELEN 0" "[(dawn2_frame @ [ETX], 5)]"]
  obtain a buf outs where
    r: "run 10 (init_acc, replicate LINELEN 0) [(dawn2_frame @ [ETX], 5)] = Inr ((a, buf), outs)"
    and c: "0 \<le> count a"
    by blast
  from step_total[OF c, of 10 buf "dawn3_frame @ [ETX]" 12] obtain a' buf' outs' where
    s: "step 10 (a, buf) (dawn3_frame @ [ETX], 12) = Inr ((a', buf'), outs')"
    by blast
  have "list_ex (\<lambda>x. case x of Periodic r \<Rightarrow> True | _ \<Rightarrow> False) outs'"
    using dawn_frames_close unfolding r by (simp add: s)
  then obtain rec where p: "Periodic rec \<in> set outs'"
    using list_ex_periodic by blast
  from close_includes_sample[of 10 "replicate LINELEN 0" "[(dawn2_frame @ [ETX], 5)]" a buf outs
      "dawn3_frame @ [ETX]" 12 a' buf' outs' rec "fst (decode (load_frame buf (dawn3_frame @ [ETX])))"]
    r s p
  show ?thesis by blast
qed

section \<open>Two windows of two samples\<close>

text \<open>
  Claim C1 at a window with the dawn values 2 and 3, sum 5 over 2 samples: the two
  datagrams arrive at times 5 and 12, the interval is 10, and the record written at the
  close has the dawn average 2. The long division 5 / 2 is 2 before .5 is added, so
  the cast yields 2 where rounding the mean 2.5 half up would yield 3.
\<close>

theorem average_five_over_two:
  "map_sum id snd (run 10 (init_acc, replicate LINELEN 0)
      [(dawn2_frame @ [ETX], 5), (dawn3_frame @ [ETX], 12)]) =
    Inr [Snapshot \<lparr>temp = 76, sunS = 1, sunW = 63, sunE = 0, obsc = CH CHR ''o'', dawn = 2,
                   wind = 12, rain = CH CHR ''r''\<rparr>,
         Snapshot \<lparr>temp = 76, sunS = 1, sunW = 63, sunE = 0, obsc = CH CHR ''o'', dawn = 3,
                   wind = 12, rain = CH CHR ''r''\<rparr>,
         Periodic \<lparr>r_epoch = 12, r_avgTemp = 76, r_avgSunS = 1, r_avgSunW = 63, r_avgSunE = 0,
                   r_maxObsc = CH CHR ''o'', r_avgDawn = 2, r_maxWind = 12,
                   r_maxRain = CH CHR ''r''\<rparr>] \<and>
   round_avg 5 2 = 2"
  by code_simp

text \<open>The record of that run, read off: its dawn average is 2.\<close>

theorem average_five_over_two_witness:
  "\<exists>outs. map_sum id snd (run 10 (init_acc, replicate LINELEN 0)
      [(dawn2_frame @ [ETX], 5), (dawn3_frame @ [ETX], 12)]) = Inr outs \<and>
     list_ex (\<lambda>x. case x of Periodic r \<Rightarrow> r_avgDawn r = 2 | _ \<Rightarrow> False) outs"
  using average_five_over_two by simp

text \<open>
  Claim C2 at a window of two samples, the first with obscurity and rain active (J),
  the second with both inactive (N): the record written at the close has the lowercase
  characters o and r. The maxima are taken on the character codes, where r (114) is
  greater than R (82) and o (111) greater than O (79), so one inactive sample makes the
  character lowercase although the event was active in the window.
\<close>

theorem flags_after_active_sample:
  "map_sum id snd (run 10 (init_acc, replicate LINELEN 0)
      [(storm_frame @ [ETX], 5), (example_frame @ [ETX], 12)]) =
    Inr [Snapshot \<lparr>temp = 76, sunS = 1, sunW = 63, sunE = 0, obsc = CH CHR ''O'', dawn = 999,
                   wind = 12, rain = CH CHR ''R''\<rparr>,
         Snapshot \<lparr>temp = 76, sunS = 1, sunW = 63, sunE = 0, obsc = CH CHR ''o'', dawn = 999,
                   wind = 12, rain = CH CHR ''r''\<rparr>,
         Periodic \<lparr>r_epoch = 12, r_avgTemp = 76, r_avgSunS = 1, r_avgSunW = 63, r_avgSunE = 0,
                   r_maxObsc = CH CHR ''o'', r_avgDawn = 999, r_maxWind = 12,
                   r_maxRain = CH CHR ''r''\<rparr>]"
  by code_simp

text \<open>The record of that run, read off: both characters are lowercase.\<close>

theorem flags_after_active_sample_witness:
  "\<exists>outs. map_sum id snd (run 10 (init_acc, replicate LINELEN 0)
      [(storm_frame @ [ETX], 5), (example_frame @ [ETX], 12)]) = Inr outs \<and>
     list_ex (\<lambda>x. case x of Periodic r \<Rightarrow> r_maxRain r = CH CHR ''r'' \<and> r_maxObsc r = CH CHR ''o''
                          | _ \<Rightarrow> False) outs"
  using flags_after_active_sample by simp

section \<open>Properties of the decoder\<close>

lemma validate_bit2: "bit (validate n buf) 2 = (buf ! 1 \<noteq> CH CHR ''+'' \<and> buf ! 1 \<noteq> CH CHR ''-'')"
  unfolding validate_def Let_def bit_chk bit_foldl_chk
  by (simp add: sanity_checks_def)

lemma validate_bit3:
  "bit (validate n buf) 3 =
     (nondigit (buf ! 2) \<or> nondigit (buf ! 3) \<or> buf ! 4 \<noteq> CH CHR ''.'' \<or> nondigit (buf ! 5))"
  unfolding validate_def Let_def bit_chk bit_foldl_chk
  by (simp add: sanity_checks_def)

lemma validate_bit9:
  "bit (validate n buf) 9 =
     (nondigit (buf ! 16) \<or> nondigit (buf ! 17) \<or> buf ! 18 \<noteq> CH CHR ''.'' \<or> nondigit (buf ! 19))"
  unfolding validate_def Let_def bit_chk bit_foldl_chk
  by (simp add: sanity_checks_def)

lemma valid_fields:
  assumes "validate n buf = 0"
  shows "n = 40"
    and "buf ! 1 = CH CHR ''+'' \<or> buf ! 1 = CH CHR ''-''"
    and "\<not> nondigit (buf ! 2)" "\<not> nondigit (buf ! 3)" "buf ! 4 = CH CHR ''.''" "\<not> nondigit (buf ! 5)"
    and "\<not> nondigit (buf ! 16)" "\<not> nondigit (buf ! 17)" "buf ! 18 = CH CHR ''.''"
        "\<not> nondigit (buf ! 19)"
proof -
  have b: "\<not> bit (validate n buf) k" for k
    by (simp add: assms)
  show "n = 40" using b[of 0] by (simp add: validate_bit0)
  show "buf ! 1 = CH CHR ''+'' \<or> buf ! 1 = CH CHR ''-''"
    using b[of 2] unfolding validate_bit2 by blast
  show "\<not> nondigit (buf ! 2)" "\<not> nondigit (buf ! 3)" "buf ! 4 = CH CHR ''.''" "\<not> nondigit (buf ! 5)"
    using b[of 3] unfolding validate_bit3 by blast+
  show "\<not> nondigit (buf ! 16)" "\<not> nondigit (buf ! 17)" "buf ! 18 = CH CHR ''.''"
        "\<not> nondigit (buf ! 19)"
    using b[of 9] unfolding validate_bit9 by blast+
qed

lemma nondigit_NUL: "nondigit 0"
  by (simp add: nondigit_def)

lemma tenths_unsigned:
  assumes "\<not> nondigit a" "\<not> nondigit b" "\<not> nondigit c" "nondigit z" "d = CH CHR ''.''"
  shows "tenths (a # b # d # c # z # rest) =
           c_int (dmul (round_frac (100 * digit_val a + 10 * digit_val b + digit_val c) 10) 10)"
    and "tenths [a, b, d, c] =
           c_int (dmul (round_frac (100 * digit_val a + 10 * digit_val b + digit_val c) 10) 10)"
  using assms digit_not_space[of a] digit_not_sign[of a] digit_not_sign[of b] digit_not_sign[of c]
  by (simp_all add: tenths_def atof_def strtod_dec_def mult.commute)

lemma tenths_plus:
  assumes "\<not> nondigit a" "\<not> nondigit b" "\<not> nondigit c" "nondigit z" "d = CH CHR ''.''"
    and "s = CH CHR ''+''"
  shows "tenths (s # a # b # d # c # z # rest) =
           c_int (dmul (round_frac (100 * digit_val a + 10 * digit_val b + digit_val c) 10) 10)"
    and "tenths [s, a, b, d, c] =
           c_int (dmul (round_frac (100 * digit_val a + 10 * digit_val b + digit_val c) 10) 10)"
  using assms digit_not_sign[of a] digit_not_sign[of b] digit_not_sign[of c]
  by (simp_all add: tenths_def atof_def strtod_dec_def isspace_c_def mult.commute)

lemma tenths_minus:
  assumes "\<not> nondigit a" "\<not> nondigit b" "\<not> nondigit c" "nondigit z" "d = CH CHR ''.''"
    and "s = CH CHR ''-''"
  shows "tenths (s # a # b # d # c # z # rest) =
           c_int (dmul (dneg (round_frac (100 * digit_val a + 10 * digit_val b + digit_val c) 10)) 10)"
    and "tenths [s, a, b, d, c] =
           c_int (dmul (dneg (round_frac (100 * digit_val a + 10 * digit_val b + digit_val c) 10)) 10)"
  using assms digit_not_sign[of a] digit_not_sign[of b] digit_not_sign[of c]
  by (simp_all add: tenths_def atof_def strtod_dec_def isspace_c_def mult.commute)

text \<open>
  1.2 is the double 0x3FF3333333333333 and .05 is 0x3FA999999999999A: the significands
  0x13333333333333 and 0x1999999999999A with the exponents -52 and -57.
\<close>

lemma round_frac_examples:
  "round_frac 12 10 = (0x13333333333333, - 52)" "round_frac 5 100 = (0x1999999999999A, - 57)"
  by code_simp+

lemma round_frac_neg: "round_frac (- p) q = dneg (round_frac p q)"
  by (simp add: round_frac_def dneg_def Let_def split: prod.splits)

lemma dmul_dneg: "dmul (dneg x) k = dneg (dmul x k)"
proof (cases x)
  case (Pair m e)
  have "dmul (dneg (m, e)) k = dneg (dmul (m, e) k)"
    using round_frac_neg[of "m * k * 2 ^ nat e" 1] round_frac_neg[of "m * k" "2 ^ nat (- e)"]
    by (simp add: dmul_def dneg_def[of "(m, e)"])
  then show ?thesis by (simp add: Pair)
qed

lemma c_int_dneg: "c_int (dneg x) = - c_int x"
  by (cases x) (simp add: c_int_def dneg_def)

lemma digit_val_range: "\<not> nondigit c \<Longrightarrow> 0 \<le> digit_val c \<and> digit_val c \<le> 9"
  using digit_range[of c] by (simp add: digit_val_def)

lemma drop_Cons_nth: "i < length xs \<Longrightarrow> drop i xs = xs ! i # drop (Suc i) xs"
  by (simp add: Cons_nth_drop_Suc)

lemma wind_text:
  assumes "21 \<le> length buf"
  shows "drop 16 (buf[20 := 0]) =
         buf ! 16 # buf ! 17 # buf ! 18 # buf ! 19 # 0 # drop 21 buf"
proof -
  let ?b = "buf[20 := 0]"
  have l: "21 \<le> length ?b" using assms by simp
  have "drop 16 ?b = ?b ! 16 # drop 17 ?b" using l drop_Cons_nth[of 16 ?b] by simp
  moreover have "drop 17 ?b = ?b ! 17 # drop 18 ?b" using l drop_Cons_nth[of 17 ?b] by simp
  moreover have "drop 18 ?b = ?b ! 18 # drop 19 ?b" using l drop_Cons_nth[of 18 ?b] by simp
  moreover have "drop 19 ?b = ?b ! 19 # drop 20 ?b" using l drop_Cons_nth[of 19 ?b] by simp
  moreover have "drop 20 ?b = ?b ! 20 # drop 21 ?b" using l drop_Cons_nth[of 20 ?b] by simp
  moreover have "drop 21 ?b = drop 21 buf" by simp
  ultimately show ?thesis using assms by simp
qed

lemma temp_text:
  assumes "21 \<le> length buf"
  shows "\<exists>rest. drop 1 (buf[20 := 0, 16 := 0, 12 := 0, 10 := 0, 8 := 0, 6 := 0]) =
         buf ! 1 # buf ! 2 # buf ! 3 # buf ! 4 # buf ! 5 # 0 # rest"
proof -
  let ?b = "buf[20 := 0, 16 := 0, 12 := 0, 10 := 0, 8 := 0, 6 := 0]"
  have l: "21 \<le> length ?b" using assms by simp
  have "drop 1 ?b = ?b ! 1 # drop 2 ?b" using l drop_Cons_nth[of 1 ?b] by (simp add: numeral_2_eq_2)
  moreover have "drop 2 ?b = ?b ! 2 # drop 3 ?b" using l drop_Cons_nth[of 2 ?b] by simp
  moreover have "drop 3 ?b = ?b ! 3 # drop 4 ?b" using l drop_Cons_nth[of 3 ?b] by simp
  moreover have "drop 4 ?b = ?b ! 4 # drop 5 ?b" using l drop_Cons_nth[of 4 ?b] by simp
  moreover have "drop 5 ?b = ?b ! 5 # drop 6 ?b" using l drop_Cons_nth[of 5 ?b] by simp
  moreover have "drop 6 ?b = ?b ! 6 # drop 7 ?b" using l drop_Cons_nth[of 6 ?b] by simp
  moreover have "?b ! 1 = buf ! 1" "?b ! 2 = buf ! 2" "?b ! 3 = buf ! 3" "?b ! 4 = buf ! 4"
    "?b ! 5 = buf ! 5" "?b ! 6 = 0"
    using assms by simp_all
  ultimately have "drop 1 ?b = buf ! 1 # buf ! 2 # buf ! 3 # buf ! 4 # buf ! 5 # 0 # drop 7 ?b"
    by metis
  then show ?thesis by blast
qed

lemma decode_wind: "wind (fst (decode buf)) = tenths (drop 16 (buf[20 := 0]))"
  by (simp add: decode_def Let_def)

lemma decode_temp:
  "temp (fst (decode buf)) =
     tenths (drop 1 (buf[20 := 0, 16 := 0, 12 := 0, 10 := 0, 8 := 0, 6 := 0]))"
  by (simp add: decode_def Let_def)

lemma valid_wind:
  assumes "validate n buf = 0" "21 \<le> length buf"
  shows "wind (fst (decode buf)) = tenths [buf ! 16, buf ! 17, buf ! 18, buf ! 19]"
    and "wind (fst (decode buf)) =
         c_int (dmul (round_frac (100 * digit_val (buf ! 16) + 10 * digit_val (buf ! 17) +
                                  digit_val (buf ! 19)) 10) 10)"
proof -
  note f = valid_fields(7-10)[OF assms(1)]
  have e: "wind (fst (decode buf)) =
           tenths (buf ! 16 # buf ! 17 # buf ! 18 # buf ! 19 # 0 # drop 21 buf)"
    unfolding decode_wind wind_text[OF assms(2)] ..
  show "wind (fst (decode buf)) =
         c_int (dmul (round_frac (100 * digit_val (buf ! 16) + 10 * digit_val (buf ! 17) +
                                  digit_val (buf ! 19)) 10) 10)"
    unfolding e by (rule tenths_unsigned(1)[OF f(1,2,4) nondigit_NUL f(3)])
  then show "wind (fst (decode buf)) = tenths [buf ! 16, buf ! 17, buf ! 18, buf ! 19]"
    using tenths_unsigned(2)[OF f(1,2,4) nondigit_NUL f(3)] by simp
qed

lemma valid_temp:
  assumes "validate n buf = 0" "21 \<le> length buf"
  shows "temp (fst (decode buf)) = tenths [buf ! 1, buf ! 2, buf ! 3, buf ! 4, buf ! 5]"
    and "temp (fst (decode buf)) =
         (if buf ! 1 = CH CHR ''-'' then - 1 else 1) *
         c_int (dmul (round_frac (100 * digit_val (buf ! 2) + 10 * digit_val (buf ! 3) +
                                  digit_val (buf ! 5)) 10) 10)"
proof -
  from temp_text[OF assms(2)] obtain rest where
    t: "drop 1 (buf[20 := 0, 16 := 0, 12 := 0, 10 := 0, 8 := 0, 6 := 0]) =
         buf ! 1 # buf ! 2 # buf ! 3 # buf ! 4 # buf ! 5 # 0 # rest"
    by blast
  note f = valid_fields(2-6)[OF assms(1)]
  have e: "temp (fst (decode buf)) =
           tenths (buf ! 1 # buf ! 2 # buf ! 3 # buf ! 4 # buf ! 5 # 0 # rest)"
    unfolding decode_temp t ..
  let ?v = "c_int (dmul (round_frac (100 * digit_val (buf ! 2) + 10 * digit_val (buf ! 3) +
                                  digit_val (buf ! 5)) 10) 10)"
  have both: "temp (fst (decode buf)) = tenths [buf ! 1, buf ! 2, buf ! 3, buf ! 4, buf ! 5] \<and>
        temp (fst (decode buf)) = (if buf ! 1 = CH CHR ''-'' then - 1 else 1) * ?v"
  proof (cases "buf ! 1 = CH CHR ''-''")
    case True
    have "temp (fst (decode buf)) = - ?v"
      unfolding e tenths_minus(1)[OF f(2,3,5) nondigit_NUL f(4) True] dmul_dneg c_int_dneg ..
    moreover have "tenths [buf ! 1, buf ! 2, buf ! 3, buf ! 4, buf ! 5] = - ?v"
      unfolding tenths_minus(2)[OF f(2,3,5) nondigit_NUL f(4) True] dmul_dneg c_int_dneg ..
    ultimately show ?thesis using True by simp
  next
    case False
    with f(1) have p: "buf ! 1 = CH CHR ''+''" by blast
    have "temp (fst (decode buf)) = ?v"
      unfolding e tenths_plus(1)[OF f(2,3,5) nondigit_NUL f(4) p] ..
    moreover have "tenths [buf ! 1, buf ! 2, buf ! 3, buf ! 4, buf ! 5] = ?v"
      unfolding tenths_plus(2)[OF f(2,3,5) nondigit_NUL f(4) p] ..
    ultimately show ?thesis using False by simp
  qed
  from both show "temp (fst (decode buf)) = tenths [buf ! 1, buf ! 2, buf ! 3, buf ! 4, buf ! 5]"
    by blast
  from both show "temp (fst (decode buf)) =
         (if buf ! 1 = CH CHR ''-'' then - 1 else 1) * ?v"
    by blast
qed

lemma length_load_frame_valid:
  assumes "length fr = 40"
  shows "21 \<le> length (load_frame buf fr)"
  using assms by (simp add: load_frame_def LINELEN_def)

text \<open>
  The double nearest to \<open>n / 10\<close>, times 10 and rounded again, is \<open>n\<close> itself for
  every \<open>n\<close> a field of two digits, a point and one digit can hold. Checked value by
  value, a hundred at a time.
\<close>

lemma tenths_exact_0: "list_all (\<lambda>n. c_int (dmul (round_frac n 10) 10) = n) [0..99]"
  by code_simp

lemma tenths_exact_1: "list_all (\<lambda>n. c_int (dmul (round_frac n 10) 10) = n) [100..199]"
  by code_simp

lemma tenths_exact_2: "list_all (\<lambda>n. c_int (dmul (round_frac n 10) 10) = n) [200..299]"
  by code_simp

lemma tenths_exact_3: "list_all (\<lambda>n. c_int (dmul (round_frac n 10) 10) = n) [300..399]"
  by code_simp

lemma tenths_exact_4: "list_all (\<lambda>n. c_int (dmul (round_frac n 10) 10) = n) [400..499]"
  by code_simp

lemma tenths_exact_5: "list_all (\<lambda>n. c_int (dmul (round_frac n 10) 10) = n) [500..599]"
  by code_simp

lemma tenths_exact_6: "list_all (\<lambda>n. c_int (dmul (round_frac n 10) 10) = n) [600..699]"
  by code_simp

lemma tenths_exact_7: "list_all (\<lambda>n. c_int (dmul (round_frac n 10) 10) = n) [700..799]"
  by code_simp

lemma tenths_exact_8: "list_all (\<lambda>n. c_int (dmul (round_frac n 10) 10) = n) [800..899]"
  by code_simp

lemma tenths_exact_9: "list_all (\<lambda>n. c_int (dmul (round_frac n 10) 10) = n) [900..999]"
  by code_simp

lemma tenths_exact:
  assumes "0 \<le> n" "n \<le> 999"
  shows "c_int (dmul (round_frac n 10) 10) = n"
proof -
  have "n \<in> set [0..99] \<or> n \<in> set [100..199] \<or> n \<in> set [200..299] \<or> n \<in> set [300..399] \<or>
        n \<in> set [400..499] \<or> n \<in> set [500..599] \<or> n \<in> set [600..699] \<or> n \<in> set [700..799] \<or>
        n \<in> set [800..899] \<or> n \<in> set [900..999]"
    unfolding set_upto atLeastAtMost_iff using assms by linarith
  then show ?thesis
    using tenths_exact_0 tenths_exact_1 tenths_exact_2 tenths_exact_3 tenths_exact_4
      tenths_exact_5 tenths_exact_6 tenths_exact_7 tenths_exact_8 tenths_exact_9
    unfolding list_all_iff by blast
qed

lemma three_digits:
  assumes "\<not> nondigit a" "\<not> nondigit b" "\<not> nondigit c"
  shows "0 \<le> 100 * digit_val a + 10 * digit_val b + digit_val c"
    and "100 * digit_val a + 10 * digit_val b + digit_val c \<le> 999"
  using digit_val_range[OF assms(1)] digit_val_range[OF assms(2)] digit_val_range[OF assms(3)]
  by simp_all

lemma example_valid:
  "validate (length (example_frame @ [ETX]))
     (load_frame (replicate LINELEN 0) (example_frame @ [ETX])) = 0"
  by code_simp

text \<open>
  Claim C9: \<open>tenths\<close> is the text parsed by \<^verbatim>\<open>atof\<close>, times 10, cast to
  \<^verbatim>\<open>int\<close>, and the cast cuts the fraction off (12.9 gives 12 and -12.9 gives -12).
  For every valid frame the decoded temperature is \<open>tenths\<close> of bytes 1 to 5 and the
  decoded wind is \<open>tenths\<close> of bytes 16 to 19, and both are exactly the tenths the text
  spells, with the sign of byte 1 for the temperature; 01.2 gives 12 and +07.6 gives 76.
\<close>

theorem decode_tenths:
  "(validate (length fr) (load_frame buf0 fr) = 0 \<longrightarrow>
      temp (fst (decode (load_frame buf0 fr))) = tenths [fr ! 1, fr ! 2, fr ! 3, fr ! 4, fr ! 5] \<and>
      wind (fst (decode (load_frame buf0 fr))) = tenths [fr ! 16, fr ! 17, fr ! 18, fr ! 19] \<and>
      temp (fst (decode (load_frame buf0 fr))) =
        (if fr ! 1 = CH CHR ''-'' then - 1 else 1) *
        (100 * digit_val (fr ! 2) + 10 * digit_val (fr ! 3) + digit_val (fr ! 5)) \<and>
      wind (fst (decode (load_frame buf0 fr))) =
        100 * digit_val (fr ! 16) + 10 * digit_val (fr ! 17) + digit_val (fr ! 19)) \<and>
   tenths s = c_int (dmul (atof s) 10) \<and>
   tenths (cstr ''01.2'') = 12 \<and> tenths (cstr ''+07.6'') = 76 \<and>
   c_int (round_frac 129 10) = 12 \<and> c_int (round_frac (- 129) 10) = - 12"
proof (intro conjI impI)
  assume v: "validate (length fr) (load_frame buf0 fr) = 0"
  let ?b = "load_frame buf0 fr"
  have n: "length fr = 40" by (rule valid_fields(1)[OF v])
  have l: "21 \<le> length ?b" by (rule length_load_frame_valid[OF n])
  have nth: "?b ! i = fr ! i" if "i < 40" for i
    using that n by (simp add: load_frame_nth LINELEN_def)
  note f = valid_fields[OF v]
  show "temp (fst (decode ?b)) = tenths [fr ! 1, fr ! 2, fr ! 3, fr ! 4, fr ! 5]"
    using valid_temp(1)[OF v l] by (simp add: nth)
  show "wind (fst (decode ?b)) = tenths [fr ! 16, fr ! 17, fr ! 18, fr ! 19]"
    using valid_wind(1)[OF v l] by (simp add: nth)
  have "temp (fst (decode ?b)) =
        (if ?b ! 1 = CH CHR ''-'' then - 1 else 1) *
        (100 * digit_val (?b ! 2) + 10 * digit_val (?b ! 3) + digit_val (?b ! 5))"
    unfolding valid_temp(2)[OF v l]
    using tenths_exact[OF three_digits[OF f(3,4,6)]] by simp
  then show "temp (fst (decode ?b)) =
        (if fr ! 1 = CH CHR ''-'' then - 1 else 1) *
        (100 * digit_val (fr ! 2) + 10 * digit_val (fr ! 3) + digit_val (fr ! 5))"
    by (simp add: nth)
  have "wind (fst (decode ?b)) =
        100 * digit_val (?b ! 16) + 10 * digit_val (?b ! 17) + digit_val (?b ! 19)"
    unfolding valid_wind(2)[OF v l]
    using tenths_exact[OF three_digits[OF f(7,8,10)]] by simp
  then show "wind (fst (decode ?b)) =
        100 * digit_val (fr ! 16) + 10 * digit_val (fr ! 17) + digit_val (fr ! 19)"
    by (simp add: nth)
next
  show "tenths s = c_int (dmul (atof s) 10)" by (simp add: tenths_def)
  show "tenths (cstr ''01.2'') = 12" by code_simp
  show "tenths (cstr ''+07.6'') = 76" by code_simp
  show "c_int (round_frac 129 10) = 12" by code_simp
  show "c_int (round_frac (- 129) 10) = - 12" by code_simp
qed

text \<open>The example datagram is valid and decodes to 76 tenths of a degree and 12 of wind.\<close>

theorem decode_tenths_witness:
  "validate (length (example_frame @ [ETX]))
     (load_frame (replicate LINELEN 0) (example_frame @ [ETX])) = 0 \<and>
   temp (fst (decode (load_frame (replicate LINELEN 0) (example_frame @ [ETX])))) = 76 \<and>
   wind (fst (decode (load_frame (replicate LINELEN 0) (example_frame @ [ETX])))) = 12"
proof -
  have d: "(if (example_frame @ [ETX]) ! 1 = CH CHR ''-'' then - 1 else 1) *
        (100 * digit_val ((example_frame @ [ETX]) ! 2) + 10 * digit_val ((example_frame @ [ETX]) ! 3) +
         digit_val ((example_frame @ [ETX]) ! 5)) = 76 \<and>
        100 * digit_val ((example_frame @ [ETX]) ! 16) + 10 * digit_val ((example_frame @ [ETX]) ! 17) +
         digit_val ((example_frame @ [ETX]) ! 19) = 12"
    by code_simp
  from decode_tenths[of "example_frame @ [ETX]" "replicate LINELEN 0"] example_valid d
  show ?thesis by metis
qed

end
